theory Spec2Isabelle
  imports Main "HOL-Library.AList"
begin

section \<open>The response wrapper of SolrClient (solrresp.py)\<close>

text \<open>
  The class \<open>SolrResponse\<close> wraps the object that a JSON decoder made of a Solr reply.
  The embedding follows the Python source line by line. Exceptions are values of a sum
  type (\<open>Inl\<close> the exception), instance attributes are the fields of a record, a loop is
  a recursive function over the sequence it iterates, and an accessor that assigns to an
  attribute returns the instance it leaves behind together with its outcome.
\<close>

subsection \<open>Decoded JSON\<close>

text \<open>
  The values \<open>json.loads\<close> produces: \<open>None\<close>, \<open>bool\<close>, \<open>int\<close>, \<open>str\<close>, \<open>list\<close> and
  \<open>dict\<close> with \<open>str\<close> keys. A dict is the list of its items in insertion order; Python
  keeps the keys of a dict distinct (\<open>wf_json\<close> below). A \<open>str\<close> is a list of code points
  below 256. Numbers with a fraction or an exponent (Python floats) are not part of the
  model: the source never computes with them.
\<close>

datatype json =
    JNull
  | JBool bool
  | JInt int
  | JStr string
  | JList "json list"
  | JObj "(string \<times> json) list"

text \<open>The exceptions the source can raise: Python's own and the package's \<open>SolrResponseError\<close>.\<close>

datatype exn =
    KeyError
  | TypeError
  | IndexError
  | ValueError
  | AttributeError string
  | SolrResponseError string

text \<open>Sequencing of two steps, the first of which may raise.\<close>

definition bnd :: "exn + 'a \<Rightarrow> ('a \<Rightarrow> exn + 'b) \<Rightarrow> exn + 'b" where
  "bnd m f = (case m of Inl e \<Rightarrow> Inl e | Inr x \<Rightarrow> f x)"

fun mapM :: "('a \<Rightarrow> exn + 'b) \<Rightarrow> 'a list \<Rightarrow> exn + 'b list" where
  "mapM f [] = Inr []"
| "mapM f (x # xs) =
     (case f x of
        Inl e \<Rightarrow> Inl e
      | Inr y \<Rightarrow> (case mapM f xs of Inl e \<Rightarrow> Inl e | Inr ys \<Rightarrow> Inr (y # ys)))"

text \<open>Well-formed decoded JSON: the keys of every dict are distinct.\<close>

fun wf_json :: "json \<Rightarrow> bool" where
  "wf_json (JList xs) = list_all wf_json xs"
| "wf_json (JObj kvs) = (distinct (map fst kvs) \<and> list_all (\<lambda>kv. wf_json (snd kv)) kvs)"
| "wf_json _ = True"

subsection \<open>Python's built-in operations on these values\<close>

text \<open>Only immutable values can be keys of a dict.\<close>

fun hashable :: "json \<Rightarrow> bool" where
  "hashable (JList _) = False"
| "hashable (JObj _) = False"
| "hashable _ = True"

text \<open>\<open>True\<close> and \<open>False\<close> are the integers 1 and 0, as an index and as a dict key.\<close>

fun as_index :: "json \<Rightarrow> int option" where
  "as_index (JInt i) = Some i"
| "as_index (JBool b) = Some (if b then 1 else 0)"
| "as_index _ = None"

definition index_of :: "int \<Rightarrow> nat \<Rightarrow> nat option" where
  \<comment> \<open>a Python index against a length: negative indices count from the end\<close>
  "index_of i n =
     (if 0 \<le> i \<and> i < int n then Some (nat i)
      else if - int n \<le> i \<and> i < 0 then Some (nat (int n + i))
      else None)"

text \<open>\<open>obj[key]\<close>.\<close>

fun getitem :: "json \<Rightarrow> json \<Rightarrow> exn + json" where
  "getitem (JObj kvs) (JStr k) = (case map_of kvs k of Some v \<Rightarrow> Inr v | None \<Rightarrow> Inl KeyError)"
| "getitem (JObj kvs) k = (if hashable k then Inl KeyError else Inl TypeError)"
| "getitem (JList xs) k =
     (case as_index k of
        None \<Rightarrow> Inl TypeError
      | Some i \<Rightarrow> (case index_of i (length xs) of None \<Rightarrow> Inl IndexError | Some j \<Rightarrow> Inr (xs ! j)))"
| "getitem (JStr s) k =
     (case as_index k of
        None \<Rightarrow> Inl TypeError
      | Some i \<Rightarrow> (case index_of i (length s) of None \<Rightarrow> Inl IndexError | Some j \<Rightarrow> Inr (JStr [s ! j])))"
| "getitem _ _ = Inl TypeError"

text \<open>\<open>obj[key] = v\<close>, where \<open>obj[key]\<close> has just been read.\<close>

fun setitem :: "json \<Rightarrow> json \<Rightarrow> json \<Rightarrow> json" where
  "setitem (JObj kvs) (JStr k) v = JObj (AList.update k v kvs)"
| "setitem (JList xs) k v =
     (case as_index k of
        None \<Rightarrow> JList xs
      | Some i \<Rightarrow> (case index_of i (length xs) of None \<Rightarrow> JList xs | Some j \<Rightarrow> JList (xs[j := v])))"
| "setitem obj _ _ = obj"

text \<open>The sequence a \<open>for\<close> loop runs over: the keys of a dict, the characters of a str.\<close>

fun iter :: "json \<Rightarrow> exn + json list" where
  "iter (JList xs) = Inr xs"
| "iter (JObj kvs) = Inr (map (\<lambda>kv. JStr (fst kv)) kvs)"
| "iter (JStr s) = Inr (map (\<lambda>c. JStr [c]) s)"
| "iter _ = Inl TypeError"

text \<open>\<open>field + suffix\<close> for a str literal \<open>suffix\<close>.\<close>

fun str_concat :: "json \<Rightarrow> string \<Rightarrow> exn + string" where
  "str_concat (JStr s) suffix = Inr (s @ suffix)"
| "str_concat _ suffix = Inl TypeError"

text \<open>
  \<open>str.isdigit\<close> holds of a non-empty string of characters whose Unicode numeric type is
  Decimal or Digit: below code point 256 these are \<open>0\<close> to \<open>9\<close> and the superscripts
  U+00B2, U+00B3 and U+00B9. \<open>int\<close> reads decimal digits only, and raises \<open>ValueError\<close> on
  a superscript. (An interpreter's configurable bound on the length of the string that
  \<open>int\<close> reads is not modelled.)
\<close>

definition decimal_char :: "char \<Rightarrow> bool" where
  "decimal_char c = (c \<in> set ''0123456789'')"

definition isdigit_char :: "char \<Rightarrow> bool" where
  "isdigit_char c = (decimal_char c \<or> c \<in> {CHR 0xB2, CHR 0xB3, CHR 0xB9})"

definition isdigit :: "string \<Rightarrow> bool" where
  "isdigit s = (s \<noteq> [] \<and> list_all isdigit_char s)"

definition digit_val :: "char \<Rightarrow> int" where
  "digit_val c = int (of_char c) - 48"

definition decimal_value :: "string \<Rightarrow> int" where
  "decimal_value s = foldl (\<lambda>a c. 10 * a + digit_val c) 0 s"

definition int_of_str :: "string \<Rightarrow> exn + int" where
  \<comment> \<open>\<open>int(s)\<close> for an \<open>s\<close> that passed \<open>isdigit\<close>\<close>
  "int_of_str s = (if list_all decimal_char s then Inr (decimal_value s) else Inl ValueError)"

subsection \<open>The instance\<close>

text \<open>
  Attributes that only some paths assign (\<open>num_found\<close>, \<open>groups\<close> and the three caches
  that \<open>hasattr\<close> tests) are options: \<open>None\<close> is an attribute that was never set.
  The values of the decoded pivots are counts or nested mappings (\<open>pv\<close>).
\<close>

datatype pv = Leaf json | Node "(json \<times> pv) list"

record response =
  data :: json
  query_time :: json
  header :: json
  grouped :: bool
  groups :: "(string \<times> json) list option"
  docs :: json
  num_found :: "json option"
  facets :: "(string \<times> (json \<times> json) list) list option"
  facet_ranges :: "(string \<times> (json \<times> json) list) list option"
  facet_pivot :: "(json \<times> (json \<times> pv) list) list option"

subsection \<open>\<open>__init__\<close>: shape dispatch (lines 12 to 26)\<close>

text \<open>
  What the dispatch leaves behind: the attributes it set, \<open>sh_docs = None\<close> when no path
  assigned \<open>self.docs\<close>, and the place inside \<open>data\<close> of the object that \<open>self.docs\<close> is
  bound to (\<open>None\<close> for the fresh \<open>{}\<close> of the last branch).
\<close>

record shape =
  sh_grouped :: bool
  sh_groups :: "(string \<times> json) list option"
  sh_docs :: "json option"
  sh_num_found :: "json option"
  sh_path :: "json list option"

text \<open>
  The loop over \<open>data['grouped']\<close> (lines 20 to 23). The state is \<open>self.groups\<close>,
  \<open>self.docs\<close> and the field of the last pass. In each assignment Python evaluates the
  right-hand side before the key on the left.
\<close>

fun group_loop ::
  "json \<Rightarrow> json list \<Rightarrow> (string \<times> json) list \<times> json option \<times> json option
    \<Rightarrow> exn + (string \<times> json) list \<times> json option \<times> json option" where
  "group_loop g [] st = Inr st"
| "group_loop g (field # rest) (grps, ds, lastf) =
     (case bnd (getitem g field) (\<lambda>v. bnd (getitem v (JStr ''ngroups'')) (\<lambda>n.
           bnd (str_concat field ''_ngroups'') (\<lambda>k. Inr (AList.update k n grps)))) of
        Inl e \<Rightarrow> Inl e
      | Inr grps1 \<Rightarrow>
     (case bnd (getitem g field) (\<lambda>v. bnd (getitem v (JStr ''matches'')) (\<lambda>m.
           bnd (str_concat field ''_matches'') (\<lambda>k. Inr (AList.update k m grps1)))) of
        Inl e \<Rightarrow> Inl e
      | Inr grps2 \<Rightarrow>
     (case bnd (getitem g field) (\<lambda>v. getitem v (JStr ''groups'')) of
        Inl e \<Rightarrow> Inl e
      | Inr d \<Rightarrow> group_loop g rest (grps2, Some d, Some field))))"

definition dispatch :: "(string \<times> json) list \<Rightarrow> exn + shape" where
  "dispatch kvs =
     (case map_of kvs ''response'' of
        Some resp \<Rightarrow>
          bnd (getitem resp (JStr ''docs'')) (\<lambda>ds.
            Inr \<lparr> sh_grouped = False, sh_groups = None, sh_docs = Some ds,
                  sh_num_found = (case resp of JObj rkvs \<Rightarrow> map_of rkvs ''numFound'' | _ \<Rightarrow> None),
                  sh_path = Some [JStr ''response'', JStr ''docs''] \<rparr>)
      | None \<Rightarrow>
          (case map_of kvs ''grouped'' of
             Some g \<Rightarrow>
               bnd (iter g) (\<lambda>fields.
               bnd (group_loop g fields ([], None, None)) (\<lambda>(grps, ds, lastf).
                 Inr \<lparr> sh_grouped = True, sh_groups = Some grps, sh_docs = ds,
                       sh_num_found = None,
                       sh_path = (case lastf of
                                    Some f \<Rightarrow> Some [JStr ''grouped'', f, JStr ''groups'']
                                  | None \<Rightarrow> None) \<rparr>))
           | None \<Rightarrow>
               Inr \<lparr> sh_grouped = False, sh_groups = None, sh_docs = Some (JObj []),
                     sh_num_found = None, sh_path = None \<rparr>))"

subsection \<open>\<open>__init__\<close>: the normalisation loop (lines 28 to 31)\<close>

text \<open>The body of the inner loop on one value of a dict: \<open>doc[field] = int(doc[field])\<close>.\<close>

definition norm_value :: "json \<Rightarrow> exn + json" where
  "norm_value v =
     (case v of
        JStr s \<Rightarrow> if isdigit s then bnd (int_of_str s) (\<lambda>n. Inr (JInt n)) else Inr v
      | _ \<Rightarrow> Inr v)"

text \<open>
  \<open>for field in doc\<close> on a dict visits every key once, in order; assigning to an existing
  key leaves the keys as they are.
\<close>

fun norm_fields :: "(string \<times> json) list \<Rightarrow> exn + (string \<times> json) list" where
  "norm_fields [] = Inr []"
| "norm_fields ((k, v) # kvs) =
     (case norm_value v of
        Inl e \<Rightarrow> Inl e
      | Inr v' \<Rightarrow> (case norm_fields kvs of Inl e \<Rightarrow> Inl e | Inr kvs' \<Rightarrow> Inr ((k, v') # kvs')))"

text \<open>
  \<open>for field in doc\<close> on a list takes the element at position \<open>i\<close> as the index
  \<open>field\<close>, and reads the list as the earlier passes left it.
\<close>

function norm_list :: "json list \<Rightarrow> nat \<Rightarrow> exn + json list" where
  "norm_list xs i =
     (if i < length xs then
        (case as_index (xs ! i) of
           None \<Rightarrow> Inl TypeError
         | Some k \<Rightarrow>
             (case index_of k (length xs) of
                None \<Rightarrow> Inl IndexError
              | Some j \<Rightarrow>
                  (case xs ! j of
                     JStr s \<Rightarrow>
                       if isdigit s then
                         (case int_of_str s of
                            Inl e \<Rightarrow> Inl e
                          | Inr n \<Rightarrow> norm_list (xs[j := JInt n]) (Suc i))
                       else norm_list xs (Suc i)
                   | _ \<Rightarrow> norm_list xs (Suc i))))
      else Inr xs)"
  by pat_completeness auto
termination
  by (relation "measure (\<lambda>(xs, i). length xs - i)") auto

text \<open>One pass of the outer loop: a str can be iterated but not indexed by its characters.\<close>

fun norm_doc :: "json \<Rightarrow> exn + json" where
  "norm_doc (JObj kvs) = bnd (norm_fields kvs) (\<lambda>kvs'. Inr (JObj kvs'))"
| "norm_doc (JList xs) = bnd (norm_list xs 0) (\<lambda>xs'. Inr (JList xs'))"
| "norm_doc (JStr s) = (if s = [] then Inr (JStr s) else Inl TypeError)"
| "norm_doc _ = Inl TypeError"

text \<open>
  The outer loop. Only the elements of a list are objects the loop can change; the keys
  of a dict and the characters of a str are immutable.
\<close>

definition normalise :: "json \<Rightarrow> exn + json" where
  "normalise ds =
     bnd (iter ds) (\<lambda>items.
     bnd (mapM norm_doc items) (\<lambda>items'.
       Inr (case ds of JList _ \<Rightarrow> JList items' | _ \<Rightarrow> ds)))"

subsection \<open>\<open>__init__\<close>\<close>

text \<open>
  \<open>self.docs\<close> is the very object found inside \<open>data\<close>, and \<open>self.data\<close> is \<open>data\<close>: what
  the normalisation loop assigns through \<open>doc\<close> is seen through \<open>self.data\<close> as well. The
  input is a tree (the decoder shares no mutable object), so this alias is the only one,
  and the write is a replacement at the path of \<open>self.docs\<close> inside \<open>data\<close>.
\<close>

primrec update_at :: "json list \<Rightarrow> json \<Rightarrow> json \<Rightarrow> json" where
  "update_at [] obj new = new"
| "update_at (k # ks) obj new =
     (case getitem obj k of
        Inl e \<Rightarrow> obj
      | Inr sub \<Rightarrow> setitem obj k (update_at ks sub new))"

text \<open>Reading along a path: \<open>obj[k1][k2]...\<close>.\<close>

primrec read_path :: "json list \<Rightarrow> json \<Rightarrow> exn + json" where
  "read_path [] obj = Inr obj"
| "read_path (k # ks) obj = bnd (getitem obj k) (read_path ks)"

text \<open>The attributes of the instance when \<open>__init__\<close> returns; no cache is set yet.\<close>

definition instance_of :: "json \<Rightarrow> json \<Rightarrow> json \<Rightarrow> shape \<Rightarrow> json \<Rightarrow> response" where
  "instance_of d h qt sh ds' =
     \<lparr> data = (case sh_path sh of None \<Rightarrow> d | Some p \<Rightarrow> update_at p d ds'),
       query_time = qt, header = h, grouped = sh_grouped sh,
       groups = sh_groups sh, docs = ds', num_found = sh_num_found sh,
       facets = None, facet_ranges = None, facet_pivot = None \<rparr>"

definition construct :: "json \<Rightarrow> exn + response" where
  "construct d =
     (case d of
        JObj kvs \<Rightarrow>
          bnd (getitem d (JStr ''responseHeader'')) (\<lambda>h.
          bnd (getitem h (JStr ''QTime'')) (\<lambda>qt.
          bnd (dispatch kvs) (\<lambda>sh.
            (case sh_docs sh of
               None \<Rightarrow> Inl (AttributeError ''docs'')
             | Some ds \<Rightarrow> bnd (normalise ds) (\<lambda>ds'. Inr (instance_of d h qt sh ds'))))))
      | _ \<Rightarrow> Inl TypeError)"

subsection \<open>\<open>get_num_found\<close> (line 46) and \<open>get_json\<close> (line 284)\<close>

definition get_num_found :: "response \<Rightarrow> exn + json" where
  "get_num_found self =
     (case num_found self of
        Some n \<Rightarrow> Inr n
      | None \<Rightarrow> Inl (AttributeError ''num_found''))"

text \<open>\<open>json.dumps\<close> is the standard library's; the accessor is modelled for any serialiser.\<close>

definition get_json :: "(json \<Rightarrow> string) \<Rightarrow> response \<Rightarrow> string" where
  "get_json dumps self = dumps (data self)"

subsection \<open>Dicts built by the accessors\<close>

text \<open>
  The accessors build dicts whose keys are values of the reply. Two keys are the same
  key when they are equal, and \<open>True\<close> equals 1. Assigning to a key that is present
  replaces the value and keeps the key and its place; a new key goes to the end.
\<close>

fun key_norm :: "json \<Rightarrow> json" where
  "key_norm (JBool b) = JInt (if b then 1 else 0)"
| "key_norm k = k"

definition key_eq :: "json \<Rightarrow> json \<Rightarrow> bool" where
  "key_eq a b = (key_norm a = key_norm b)"

fun upsert :: "json \<Rightarrow> 'v \<Rightarrow> (json \<times> 'v) list \<Rightarrow> (json \<times> 'v) list" where
  "upsert k v [] = [(k, v)]"
| "upsert k v ((k', v') # ps) =
     (if key_eq k' k then (k', v) # ps else (k', v') # upsert k v ps)"

fun lookup :: "(json \<times> 'v) list \<Rightarrow> json \<Rightarrow> 'v option" where
  "lookup [] k = None"
| "lookup ((k', v') # ps) k = (if key_eq k' k then Some v' else lookup ps k)"

text \<open>\<open>dict(pairs)\<close> and \<open>OrderedDict(pairs)\<close>: the pairs are inserted from left to right.\<close>

fun dict_from :: "(json \<times> 'v) list \<Rightarrow> (json \<times> 'v) list \<Rightarrow> exn + (json \<times> 'v) list" where
  "dict_from [] acc = Inr acc"
| "dict_from ((k, v) # ps) acc =
     (if hashable k then dict_from ps (upsert k v acc) else Inl TypeError)"

text \<open>The slices \<open>l[::2]\<close> and \<open>l[1::2]\<close>.\<close>

fun evens :: "'a list \<Rightarrow> 'a list" where
  "evens [] = []"
| "evens [x] = [x]"
| "evens (x # y # zs) = x # evens zs"

fun odds :: "'a list \<Rightarrow> 'a list" where
  "odds [] = []"
| "odds [x] = []"
| "odds (x # y # zs) = y # odds zs"

text \<open>
  \<open>zip(l[::2], l[1::2])\<close>: a list and a str can be sliced (the slices of a str are strs,
  which \<open>zip\<close> reads character by character); slicing anything else raises \<open>TypeError\<close>
  (a dict: before Python 3.12, where a slice is not hashable; since then \<open>KeyError\<close>).
\<close>

fun slice_pairs :: "json \<Rightarrow> exn + (json \<times> json) list" where
  "slice_pairs (JList xs) = Inr (zip (evens xs) (odds xs))"
| "slice_pairs (JStr s) = Inr (zip (map (\<lambda>c. JStr [c]) (evens s)) (map (\<lambda>c. JStr [c]) (odds s)))"
| "slice_pairs _ = Inl TypeError"

definition decode_flat :: "json \<Rightarrow> exn + (json \<times> json) list" where
  "decode_flat l = bnd (slice_pairs l) (\<lambda>ps. dict_from ps [])"

subsection \<open>\<open>get_facets\<close> (lines 82 to 95)\<close>

text \<open>
  The loop of lines 87 to 90 over the keys of \<open>facet_fields\<close>. The test of line 88 is
  \<open>type(... == list)\<close>, a type object, which is always true. The state is \<open>self.facets\<close>,
  which keeps what was stored when a later pass raises.
\<close>

fun facets_loop ::
  "(string \<times> json) list \<Rightarrow> string list \<Rightarrow> (string \<times> (json \<times> json) list) list
    \<Rightarrow> exn option \<times> (string \<times> (json \<times> json) list) list" where
  "facets_loop ff [] fs = (None, fs)"
| "facets_loop ff (f # rest) fs =
     (case bnd (getitem (JObj ff) (JStr f)) decode_flat of
        Inl e \<Rightarrow> (Some e, fs)
      | Inr od \<Rightarrow> facets_loop ff rest (AList.update f od fs))"

definition get_facets ::
  "response \<Rightarrow> (exn + (string \<times> (json \<times> json) list) list) \<times> response" where
  "get_facets self =
     (case facets self of
        Some fs \<Rightarrow> (Inr fs, self)
      | None \<Rightarrow>
          (case data self of
             JObj d \<Rightarrow>
               (case map_of d ''facet_counts'' of
                  Some (JObj fc) \<Rightarrow>
                    (case map_of fc ''facet_fields'' of
                       Some (JObj ff) \<Rightarrow>
                         (case facets_loop ff (map fst ff) [] of
                            (Some e, fs) \<Rightarrow> (Inl e, self\<lparr>facets := Some fs\<rparr>)
                          | (None, fs) \<Rightarrow> (Inr fs, self\<lparr>facets := Some fs\<rparr>))
                     | _ \<Rightarrow> (Inr [], self\<lparr>facets := Some []\<rparr>))
                | _ \<Rightarrow>
                    (Inl (SolrResponseError ''No Facet Information in the Response''),
                     self\<lparr>facets := Some []\<rparr>))
           | _ \<Rightarrow> (Inl (AttributeError ''keys''), self\<lparr>facets := Some []\<rparr>)))"

subsection \<open>\<open>get_facets_ranges\<close> (lines 122 to 135)\<close>

text \<open>
  The loop of lines 127 to 130. A range whose \<open>counts\<close> is not a list is skipped. The
  \<open>return\<close> of line 131 belongs to the inner \<open>if\<close>: when that test fails the method runs
  to its end and returns \<open>None\<close>, the \<open>Inr None\<close> of the model.
\<close>

fun ranges_loop ::
  "(string \<times> json) list \<Rightarrow> string list \<Rightarrow> (string \<times> (json \<times> json) list) list
    \<Rightarrow> exn option \<times> (string \<times> (json \<times> json) list) list" where
  "ranges_loop fr [] rs = (None, rs)"
| "ranges_loop fr (f # rest) rs =
     (case bnd (getitem (JObj fr) (JStr f)) (\<lambda>v. getitem v (JStr ''counts'')) of
        Inl e \<Rightarrow> (Some e, rs)
      | Inr (JList l) \<Rightarrow>
          (case decode_flat (JList l) of
             Inl e \<Rightarrow> (Some e, rs)
           | Inr od \<Rightarrow> ranges_loop fr rest (AList.update f od rs))
      | Inr _ \<Rightarrow> ranges_loop fr rest rs)"

definition get_facets_ranges ::
  "response \<Rightarrow> (exn + (string \<times> (json \<times> json) list) list option) \<times> response" where
  "get_facets_ranges self =
     (case facet_ranges self of
        Some rs \<Rightarrow> (Inr (Some rs), self)
      | None \<Rightarrow>
          (case data self of
             JObj d \<Rightarrow>
               (case map_of d ''facet_counts'' of
                  Some (JObj fc) \<Rightarrow>
                    (case map_of fc ''facet_ranges'' of
                       Some (JObj fr) \<Rightarrow>
                         (case ranges_loop fr (map fst fr) [] of
                            (Some e, rs) \<Rightarrow> (Inl e, self\<lparr>facet_ranges := Some rs\<rparr>)
                          | (None, rs) \<Rightarrow> (Inr (Some rs), self\<lparr>facet_ranges := Some rs\<rparr>))
                     | _ \<Rightarrow> (Inr None, self\<lparr>facet_ranges := Some []\<rparr>))
                | _ \<Rightarrow>
                    (Inl (SolrResponseError ''No Facet Ranges in the Response''),
                     self\<lparr>facet_ranges := Some []\<rparr>))
           | _ \<Rightarrow> (Inl (AttributeError ''keys''), self\<lparr>facet_ranges := Some []\<rparr>)))"

subsection \<open>\<open>_rec_subfield\<close> (lines 165 to 176)\<close>

text \<open>
  \<open>rec_subfield\<close> is the method, \<open>rec_entries\<close> the loop of its list branch with \<open>out\<close> as
  the accumulator. In \<open>out[key] = value\<close> Python evaluates the value first, so the
  recursive call runs before the key is read. In the list branch the key of line 170 is
  read from \<open>sub_field_set\<close>, which is the list: indexing it with \<open>'value'\<close> raises
  \<open>TypeError\<close>. A member of the list without \<open>keys\<close> raises \<open>AttributeError\<close>. The dict
  branch has no \<open>else\<close>: an entry without \<open>pivot\<close> gives the empty dict.
\<close>

function rec_subfield :: "json \<Rightarrow> exn + (json \<times> pv) list"
  and rec_entries :: "json list \<Rightarrow> (json \<times> pv) list \<Rightarrow> exn + (json \<times> pv) list" where
  "rec_subfield (JList xs) = rec_entries xs []"
| "rec_subfield (JObj kvs) =
     (case map_of kvs ''pivot'' of
        Some p \<Rightarrow>
          (case rec_subfield p of
             Inl e \<Rightarrow> Inl e
           | Inr sub \<Rightarrow>
               (case map_of kvs ''value'' of
                  None \<Rightarrow> Inl KeyError
                | Some v \<Rightarrow> if hashable v then Inr [(v, Node sub)] else Inl TypeError))
      | None \<Rightarrow> Inr [])"
| "rec_subfield JNull = Inr []"
| "rec_subfield (JBool b) = Inr []"
| "rec_subfield (JInt i) = Inr []"
| "rec_subfield (JStr s) = Inr []"
| "rec_entries [] out = Inr out"
| "rec_entries (JObj kvs # rest) out =
     (case map_of kvs ''pivot'' of
        Some p \<Rightarrow>
          (case rec_subfield p of
             Inl e \<Rightarrow> Inl e
           | Inr sub \<Rightarrow> Inl TypeError)
      | None \<Rightarrow>
          (case map_of kvs ''count'' of
             None \<Rightarrow> Inl KeyError
           | Some c \<Rightarrow>
               (case map_of kvs ''value'' of
                  None \<Rightarrow> Inl KeyError
                | Some v \<Rightarrow>
                    if hashable v then rec_entries rest (upsert v (Leaf c) out)
                    else Inl TypeError)))"
| "rec_entries (JList ys # rest) out = Inl (AttributeError ''keys'')"
| "rec_entries (JNull # rest) out = Inl (AttributeError ''keys'')"
| "rec_entries (JBool b # rest) out = Inl (AttributeError ''keys'')"
| "rec_entries (JInt i # rest) out = Inl (AttributeError ''keys'')"
| "rec_entries (JStr s # rest) out = Inl (AttributeError ''keys'')"
  by pat_completeness auto

termination
proof -
  have smaller: "size v < Suc (size_list (size_prod (\<lambda>_. 0) size) kvs)"
    if "map_of kvs k = Some v" for kvs :: "(string \<times> json) list" and k v
    using that by (induction kvs) (auto split: if_splits)
  show ?thesis
    by (relation "measure (\<lambda>x. case x of Inl j \<Rightarrow> size j | Inr (xs, out) \<Rightarrow> size_list size xs)")
       (auto dest: smaller)
qed

subsection \<open>\<open>get_facet_pivot\<close> (lines 152 to 163)\<close>

text \<open>\<open>d.update(res)\<close> assigns the items of \<open>res\<close> from left to right.\<close>

definition dict_update :: "(json \<times> 'v) list \<Rightarrow> (json \<times> 'v) list \<Rightarrow> (json \<times> 'v) list" where
  "dict_update d res = fold (\<lambda>kv. upsert (fst kv) (snd kv)) res d"

text \<open>The inner loop (lines 158 to 160) with the dict \<open>self.facet_pivot[fieldset]\<close> as state.\<close>

fun pivot_entries ::
  "json list \<Rightarrow> (json \<times> pv) list \<Rightarrow> exn option \<times> (json \<times> pv) list" where
  "pivot_entries [] acc = (None, acc)"
| "pivot_entries (sub_field_set # rest) acc =
     (case rec_subfield sub_field_set of
        Inl e \<Rightarrow> (Some e, acc)
      | Inr res \<Rightarrow> pivot_entries rest (dict_update acc res))"

text \<open>The outer loop (lines 156 to 160) with \<open>self.facet_pivot\<close> as state.\<close>

fun pivot_fields ::
  "json \<Rightarrow> json list \<Rightarrow> (json \<times> (json \<times> pv) list) list
    \<Rightarrow> exn option \<times> (json \<times> (json \<times> pv) list) list" where
  "pivot_fields pivots [] fp = (None, fp)"
| "pivot_fields pivots (fieldset # rest) fp =
     (if \<not> hashable fieldset then (Some TypeError, fp)
      else
        (case bnd (getitem pivots fieldset) iter of
           Inl e \<Rightarrow> (Some e, upsert fieldset [] fp)
         | Inr entries \<Rightarrow>
             (case pivot_entries entries [] of
                (Some e, acc) \<Rightarrow> (Some e, upsert fieldset acc fp)
              | (None, acc) \<Rightarrow> pivot_fields pivots rest (upsert fieldset acc fp))))"

text \<open>
  The \<open>return\<close> of line 161 is inside the test for \<open>facet_counts\<close>: without that key the
  method runs to its end and returns \<open>None\<close>.
\<close>

definition get_facet_pivot ::
  "response \<Rightarrow> (exn + (json \<times> (json \<times> pv) list) list option) \<times> response" where
  "get_facet_pivot self =
     (case facet_pivot self of
        Some fp \<Rightarrow> (Inr (Some fp), self)
      | None \<Rightarrow>
          (case data self of
             JObj d \<Rightarrow>
               (case map_of d ''facet_counts'' of
                  Some fc \<Rightarrow>
                    (case getitem fc (JStr ''facet_pivot'') of
                       Inl e \<Rightarrow> (Inl e, self\<lparr>facet_pivot := Some []\<rparr>)
                     | Inr pivots \<Rightarrow>
                         (case iter pivots of
                            Inl e \<Rightarrow> (Inl e, self\<lparr>facet_pivot := Some []\<rparr>)
                          | Inr fieldsets \<Rightarrow>
                              (case pivot_fields pivots fieldsets [] of
                                 (Some e, fp) \<Rightarrow> (Inl e, self\<lparr>facet_pivot := Some fp\<rparr>)
                               | (None, fp) \<Rightarrow> (Inr (Some fp), self\<lparr>facet_pivot := Some fp\<rparr>))))
                | None \<Rightarrow> (Inr None, self\<lparr>facet_pivot := Some []\<rparr>))
           | _ \<Rightarrow> (Inl (AttributeError ''keys''), self\<lparr>facet_pivot := Some []\<rparr>)))"

subsection \<open>\<open>get_facet_values_as_list\<close> and \<open>get_facet_keys_as_list\<close> (lines 254 to 278)\<close>

definition get_facet_values_as_list ::
  "response \<Rightarrow> string \<Rightarrow> (exn + json list) \<times> response" where
  "get_facet_values_as_list self field =
     (case get_facets self of
        (Inl e, self') \<Rightarrow> (Inl e, self')
      | (Inr fs, self') \<Rightarrow>
          (case map_of fs field of
             Some od \<Rightarrow> (Inr (map snd od), self')
           | None \<Rightarrow> (Inl (SolrResponseError ''No field in facet output''), self')))"

text \<open>
  The test \<open>facets == -1\<close> of line 275 is never true of a dict. The \<open>if\<close> of line 277 has
  no \<open>else\<close>: for a field that is not a key the method returns \<open>None\<close>.
\<close>

definition get_facet_keys_as_list ::
  "response \<Rightarrow> string \<Rightarrow> (exn + json list option) \<times> response" where
  "get_facet_keys_as_list self field =
     (case get_facets self of
        (Inl e, self') \<Rightarrow> (Inl e, self')
      | (Inr fs, self') \<Rightarrow>
          (case map_of fs field of
             Some od \<Rightarrow> (Inr (Some (map fst od)), self')
           | None \<Rightarrow> (Inr None, self')))"

section \<open>The words of the specification\<close>

text \<open>
  The working document collection at construction: the value that lines 12 to 26 bind
  \<open>self.docs\<close> to, before the normalisation loop runs.
\<close>

definition working_collection :: "json \<Rightarrow> json option" where
  "working_collection d =
     (case d of
        JObj kvs \<Rightarrow> (case dispatch kvs of Inr sh \<Rightarrow> sh_docs sh | Inl e \<Rightarrow> None)
      | _ \<Rightarrow> None)"

text \<open>
  The normalisation as the specification words it: a string that consists solely of
  decimal digits (and has at least one) becomes the integer it denotes; every other
  value stays.
\<close>

definition digit_only :: "string \<Rightarrow> bool" where
  "digit_only s = (s \<noteq> [] \<and> list_all decimal_char s)"

definition coerce_field :: "json \<Rightarrow> json" where
  "coerce_field v =
     (case v of JStr s \<Rightarrow> if digit_only s then JInt (decimal_value s) else v | _ \<Rightarrow> v)"

text \<open>
  The metadata \<open>__init__\<close> records for the field \<open>f\<close> of \<open>grouped\<close>: its \<open>ngroups\<close> under
  \<open>f_ngroups\<close> and its \<open>matches\<close> under \<open>f_matches\<close>.
\<close>

definition recorded :: "(string \<times> json) list \<Rightarrow> (string \<times> json) list \<Rightarrow> string \<Rightarrow> bool" where
  "recorded flds grps f =
     (\<exists>v n m. map_of flds f = Some v
        \<and> getitem v (JStr ''ngroups'') = Inr n \<and> getitem v (JStr ''matches'') = Inr m
        \<and> map_of grps (f @ ''_ngroups'') = Some n \<and> map_of grps (f @ ''_matches'') = Some m)"

text \<open>
  The decoding of a flat list as the specification words it: the element at each even
  index is a key and the element right after it is its count; the keys keep the order of
  their first occurrence; the count of a key is the one of its last occurrence. Keys are
  compared as Python compares them (\<open>key_norm\<close>).
\<close>

definition flat_pairs :: "'a list \<Rightarrow> ('a \<times> 'a) list" where
  "flat_pairs l = map (\<lambda>i. (l ! (2 * i), l ! (2 * i + 1))) [0 ..< length l div 2]"

definition first_seen :: "'a list \<Rightarrow> 'a list" where
  "first_seen ks = rev (remdups (rev ks))"

definition last_seen :: "('a \<times> 'b) list \<Rightarrow> 'a \<Rightarrow> 'b option" where
  "last_seen ps = map_of (rev ps)"

section \<open>Replies used as examples\<close>

text \<open>An ungrouped reply with one document, a grouped reply with two fields, an empty reply.\<close>

definition ex_reply :: json where
  "ex_reply =
     JObj [(''responseHeader'', JObj [(''status'', JInt 0), (''QTime'', JInt 4)]),
           (''response'', JObj [(''numFound'', JInt 1), (''start'', JInt 0),
              (''docs'', JList [JObj [(''price'', JStr ''100''), (''name'', JStr ''abc''),
                                      (''code'', JStr ''007'')]])])]"

definition ex_group_a :: json where
  "ex_group_a =
     JObj [(''matches'', JInt 5), (''ngroups'', JInt 2),
           (''groups'', JList [JObj [(''groupValue'', JStr ''x''),
                                    (''doclist'', JObj [(''docs'', JList [])])]])]"

definition ex_group_b :: json where
  "ex_group_b =
     JObj [(''matches'', JInt 7), (''ngroups'', JInt 3),
           (''groups'', JList [JObj [(''groupValue'', JStr ''12''),
                                    (''doclist'', JObj [(''docs'', JList [])])]])]"

definition ex_grouped :: json where
  "ex_grouped =
     JObj [(''responseHeader'', JObj [(''QTime'', JInt 4)]),
           (''grouped'', JObj [(''a'', ex_group_a), (''b'', ex_group_b)])]"

definition ex_empty :: json where
  "ex_empty = JObj [(''responseHeader'', JObj [(''status'', JInt 0), (''QTime'', JInt 4)])]"

text \<open>A reply whose \<open>grouped\<close> is empty.\<close>

definition ex_grouped_none :: json where
  "ex_grouped_none =
     JObj [(''responseHeader'', JObj [(''QTime'', JInt 4)]), (''grouped'', JObj [])]"

text \<open>
  A reply whose document has a field that \<open>str.isdigit\<close> accepts and \<open>int\<close> rejects:
  the digit 1 followed by the superscript two.
\<close>

definition ex_superscript :: json where
  "ex_superscript =
     JObj [(''responseHeader'', JObj [(''status'', JInt 0), (''QTime'', JInt 4)]),
           (''response'', JObj [(''numFound'', JInt 1), (''start'', JInt 0),
              (''docs'', JList [JObj [(''name'', JStr ''abc''),
                                      (''power'', JStr [CHR ''1'', CHR 0xB2])]])])]"

text \<open>A reply with the facet field of the specification's example.\<close>

definition ex_facets :: json where
  "ex_facets =
     JObj [(''responseHeader'', JObj [(''status'', JInt 0), (''QTime'', JInt 4)]),
           (''response'', JObj [(''numFound'', JInt 0), (''docs'', JList [])]),
           (''facet_counts'', JObj [(''facet_fields'', JObj [
              (''color'', JList [JStr ''red'', JInt 3, JStr ''blue'', JInt 5,
                                 JStr ''red'', JInt 1])])])]"

text \<open>
  The pivot entries of the specification's example under the field-spec \<open>f1,f2\<close>, and an
  entry of a pivot over three fields.
\<close>

definition ex_entry_a :: json where
  "ex_entry_a = JObj [(''value'', JStr ''A''), (''count'', JInt 2),
       (''pivot'', JList [JObj [(''value'', JStr ''X''), (''count'', JInt 1)],
                          JObj [(''value'', JStr ''Y''), (''count'', JInt 1)]])]"

definition ex_entry_b :: json where
  "ex_entry_b = JObj [(''value'', JStr ''B''), (''count'', JInt 1)]"

definition ex_pivot :: json where
  "ex_pivot =
     JObj [(''responseHeader'', JObj [(''status'', JInt 0), (''QTime'', JInt 4)]),
           (''response'', JObj [(''numFound'', JInt 3), (''docs'', JList [])]),
           (''facet_counts'', JObj [(''facet_pivot'', JObj [
              (''f1,f2'', JList [ex_entry_a, ex_entry_b])])])]"

definition ex_three_levels :: json where
  "ex_three_levels = JObj [(''value'', JStr ''A''), (''count'', JInt 1),
       (''pivot'', JList [JObj [(''value'', JStr ''X''), (''count'', JInt 1), 
           (''pivot'', JList [JObj [(''value'', JStr ''P''), (''count'', JInt 1)]])]])]"

text \<open>Replies whose \<open>facet_counts\<close> has no \<open>facet_ranges\<close>, or one that is a list.\<close>

definition ex_no_ranges :: json where
  "ex_no_ranges =
     JObj [(''responseHeader'', JObj [(''status'', JInt 0), (''QTime'', JInt 4)]),
           (''response'', JObj [(''numFound'', JInt 0), (''docs'', JList [])]),
           (''facet_counts'', JObj [(''facet_fields'', JObj [])])]"


definition ex_ranges_list :: json where
  "ex_ranges_list =
     JObj [(''responseHeader'', JObj [(''status'', JInt 0), (''QTime'', JInt 4)]),
           (''response'', JObj [(''numFound'', JInt 0), (''docs'', JList [])]),
           (''facet_counts'', JObj [(''facet_ranges'', JList [])])]"

text \<open>\<open>ex_reply\<close> with the digit-only strings of its document replaced by integers.\<close>

definition ex_reply_stored :: json where
  "ex_reply_stored =
     JObj [(''responseHeader'', JObj [(''status'', JInt 0), (''QTime'', JInt 4)]),
           (''response'', JObj [(''numFound'', JInt 1), (''start'', JInt 0),
              (''docs'', JList [JObj [(''price'', JInt 100), (''name'', JStr ''abc''),
                                      (''code'', JInt 7)]])])]"

section \<open>Properties\<close>

subsection \<open>Steps that may raise\<close>

lemma bnd_simps [simp]: "bnd (Inl e) f = Inl e" "bnd (Inr x) f = f x"
  by (simp_all add: bnd_def)

lemma bnd_InrD: "bnd m f = Inr y \<Longrightarrow> \<exists>x. m = Inr x \<and> f x = Inr y"
  by (cases m) simp_all

lemma getitem_str_InrD:
  "getitem obj (JStr k) = Inr v \<Longrightarrow> \<exists>kvs. obj = JObj kvs \<and> map_of kvs k = Some v"
  by (cases obj) (auto split: option.splits)

lemma getitem_KeyErrorD:
  "getitem (JObj kvs) (JStr k) = Inl KeyError \<Longrightarrow> map_of kvs k = None"
  by (auto split: option.splits)

subsection \<open>What a successful \<open>__init__\<close> went through\<close>

lemma construct_InrD:
  assumes "construct d = Inr r"
  shows "\<exists>kvs h qt sh ds ds'. d = JObj kvs \<and> getitem d (JStr ''responseHeader'') = Inr h
           \<and> getitem h (JStr ''QTime'') = Inr qt \<and> dispatch kvs = Inr sh
           \<and> sh_docs sh = Some ds \<and> normalise ds = Inr ds'
           \<and> r = instance_of d h qt sh ds'"
proof (cases d)
  case (JObj kvs)
  show ?thesis
    using assms unfolding construct_def JObj
    by (auto dest!: bnd_InrD split: option.splits)
qed (use assms in \<open>simp_all add: construct_def\<close>)

lemma instance_of_sel [simp]:
  "docs (instance_of d h qt sh ds') = ds'"
  "num_found (instance_of d h qt sh ds') = sh_num_found sh"
  "groups (instance_of d h qt sh ds') = sh_groups sh"
  "grouped (instance_of d h qt sh ds') = sh_grouped sh"
  "facets (instance_of d h qt sh ds') = None"
  "facet_ranges (instance_of d h qt sh ds') = None"
  "facet_pivot (instance_of d h qt sh ds') = None"
  by (simp_all add: instance_of_def)

text \<open>Writing at a path of dict keys and reading it back.\<close>

lemma read_update_at:
  assumes "list_all (\<lambda>k. \<exists>s. k = JStr s) p" and "read_path p obj = Inr old"
  shows "read_path p (update_at p obj new) = Inr new"
  using assms
proof (induction p arbitrary: obj)
  case Nil
  then show ?case by simp
next
  case (Cons k ks)
  from Cons.prems(1) obtain s where k: "k = JStr s" by auto
  from Cons.prems(2) obtain sub where sub: "getitem obj k = Inr sub" "read_path ks sub = Inr old"
    by (auto dest!: bnd_InrD)
  from getitem_str_InrD[OF sub(1)[unfolded k]] obtain kvs where
    obj: "obj = JObj kvs" "map_of kvs s = Some sub" by blast
  from Cons.prems(1) have "list_all (\<lambda>k. \<exists>s. k = JStr s) ks" by simp
  from Cons.IH[OF this sub(2)] show ?case
    by (simp add: k obj update_conv')
qed

lemma data_of_instance:
  "data (instance_of d h qt sh ds') = (case sh_path sh of None \<Rightarrow> d | Some p \<Rightarrow> update_at p d ds')"
  by (simp add: instance_of_def)

lemma dispatch_response:
  "map_of kvs ''response'' = Some resp \<Longrightarrow>
   dispatch kvs = bnd (getitem resp (JStr ''docs'')) (\<lambda>ds.
            Inr \<lparr> sh_grouped = False, sh_groups = None, sh_docs = Some ds,
                  sh_num_found = (case resp of JObj rkvs \<Rightarrow> map_of rkvs ''numFound'' | _ \<Rightarrow> None),
                  sh_path = Some [JStr ''response'', JStr ''docs''] \<rparr>)"
  by (simp add: dispatch_def)

lemma dispatch_no_response:
  "map_of kvs ''response'' = None \<Longrightarrow> dispatch kvs = Inr sh \<Longrightarrow> sh_num_found sh = None"
  by (auto simp: dispatch_def dest!: bnd_InrD split: option.splits)

text \<open>Unfolding the constructor on a closed term.\<close>

lemmas eval_defs = construct_def dispatch_def normalise_def norm_value_def isdigit_def
  isdigit_char_def decimal_char_def int_of_str_def decimal_value_def digit_val_def instance_of_def

lemma ex_reply_ok: "\<exists>r. construct ex_reply = Inr r"
  by (simp add: ex_reply_def eval_defs)

lemma ex_grouped_ok: "\<exists>r. construct ex_grouped = Inr r"
  by (simp add: ex_grouped_def ex_group_a_def ex_group_b_def eval_defs)

lemma ex_empty_ok: "\<exists>r. construct ex_empty = Inr r"
  by (simp add: ex_empty_def eval_defs)

subsection \<open>The total-match count\<close>

text \<open>
  Claim C2. On every instance that \<open>__init__\<close> built from a reply whose \<open>response\<close>
  carries \<open>numFound\<close>, \<open>get_num_found\<close> returns that value. On every instance built
  from a reply without the \<open>response\<close> key (a grouped or an empty reply) the attribute
  \<open>num_found\<close> was never set, and \<open>get_num_found\<close> raises the \<open>AttributeError\<close> of the
  missing attribute: it returns neither zero nor any other default.
\<close>

theorem get_num_found_set_or_raises:
  assumes "construct d = Inr r"
  shows "(\<forall>resp m. getitem d (JStr ''response'') = Inr resp
              \<and> getitem resp (JStr ''numFound'') = Inr m
            \<longrightarrow> get_num_found r = Inr m)
       \<and> (getitem d (JStr ''response'') = Inl KeyError
            \<longrightarrow> get_num_found r = Inl (AttributeError ''num_found''))"
proof -
  from construct_InrD[OF assms] obtain kvs h qt sh ds' where
    d: "d = JObj kvs" and sh: "dispatch kvs = Inr sh" and r: "r = instance_of d h qt sh ds'"
    by blast
  have nf: "num_found r = sh_num_found sh" by (simp add: r)
  have a: "get_num_found r = Inr m"
    if "getitem d (JStr ''response'') = Inr resp" "getitem resp (JStr ''numFound'') = Inr m"
    for resp m
  proof -
    from that(1) have 1: "map_of kvs ''response'' = Some resp"
      using d by (auto split: option.splits)
    from getitem_str_InrD[OF that(2)] obtain rkvs where
      2: "resp = JObj rkvs" "map_of rkvs ''numFound'' = Some m" by blast
    from sh have "sh_num_found sh = Some m"
      unfolding dispatch_response[OF 1] using 2 by (auto dest!: bnd_InrD)
    then show ?thesis by (simp add: get_num_found_def nf)
  qed
  have b: "get_num_found r = Inl (AttributeError ''num_found'')"
    if "getitem d (JStr ''response'') = Inl KeyError"
  proof -
    from that have "map_of kvs ''response'' = None"
      using d getitem_KeyErrorD by blast
    then have "sh_num_found sh = None" using sh by (rule dispatch_no_response)
    then show ?thesis by (simp add: get_num_found_def nf)
  qed
  from a b show ?thesis by blast
qed

theorem get_num_found_witness:
  "(\<exists>r. construct ex_reply = Inr r \<and> get_num_found r = Inr (JInt 1))
   \<and> (\<exists>r. construct ex_grouped = Inr r \<and> get_num_found r = Inl (AttributeError ''num_found''))
   \<and> (\<exists>r. construct ex_empty = Inr r \<and> get_num_found r = Inl (AttributeError ''num_found''))"
proof -
  from ex_reply_ok obtain r1 where r1: "construct ex_reply = Inr r1" ..
  from ex_grouped_ok obtain r2 where r2: "construct ex_grouped = Inr r2" ..
  from ex_empty_ok obtain r3 where r3: "construct ex_empty = Inr r3" ..
  have "get_num_found r1 = Inr (JInt 1)"
    using get_num_found_set_or_raises[OF r1] by (simp add: ex_reply_def)
  moreover have "get_num_found r2 = Inl (AttributeError ''num_found'')"
    using get_num_found_set_or_raises[OF r2] by (simp add: ex_grouped_def)
  moreover have "get_num_found r3 = Inl (AttributeError ''num_found'')"
    using get_num_found_set_or_raises[OF r3] by (simp add: ex_empty_def)
  ultimately show ?thesis using r1 r2 r3 by blast
qed

subsection \<open>The normalisation of the documents\<close>

lemma mapM_list_all2:
  "mapM f xs = Inr ys \<Longrightarrow> list_all2 (\<lambda>x y. f x = Inr y) xs ys"
  by (induction xs arbitrary: ys) (auto split: sum.splits)

lemma digit_only_isdigit: "digit_only s \<Longrightarrow> isdigit s"
  by (auto simp: digit_only_def isdigit_def isdigit_char_def decimal_char_def list_all_iff)

lemma norm_value_coerce: "norm_value v = Inr v' \<Longrightarrow> v' = coerce_field v"
proof (cases v)
  case (JStr s)
  assume a: "norm_value v = Inr v'"
  show ?thesis
  proof (cases "isdigit s")
    case True
    with a JStr have "list_all decimal_char s \<and> v' = JInt (decimal_value s)"
      by (auto simp: norm_value_def int_of_str_def split: if_splits)
    moreover from True have "s \<noteq> []" by (simp add: isdigit_def)
    ultimately show ?thesis
      by (simp add: coerce_field_def JStr digit_only_def)
  next
    case False
    with a JStr have "v' = v" by (simp add: norm_value_def)
    moreover from False have "\<not> digit_only s" using digit_only_isdigit by blast
    ultimately show ?thesis by (simp add: coerce_field_def JStr)
  qed
qed (auto simp: norm_value_def coerce_field_def)

lemma norm_fields_coerce:
  "norm_fields kvs = Inr kvs' \<Longrightarrow> kvs' = map (\<lambda>kv. (fst kv, coerce_field (snd kv))) kvs"
  by (induction kvs arbitrary: kvs') (auto split: sum.splits dest: norm_value_coerce)

lemma normalise_list:
  assumes "normalise (JList ds) = Inr ds'"
  shows "\<exists>ys. ds' = JList ys \<and> list_all2 (\<lambda>x y. norm_doc x = Inr y) ds ys"
  using assms by (auto simp: normalise_def dest!: bnd_InrD dest: mapM_list_all2)

text \<open>In ungrouped mode the working collection is \<open>response.docs\<close> of the reply.\<close>

lemma working_collection_ungrouped:
  assumes "getitem d (JStr ''response'') = Inr resp" and "getitem resp (JStr ''docs'') = Inr ds"
  shows "working_collection d = Some ds"
proof -
  from getitem_str_InrD[OF assms(1)] obtain kvs where
    d: "d = JObj kvs" "map_of kvs ''response'' = Some resp" by blast
  show ?thesis
    by (simp add: working_collection_def d dispatch_response[OF d(2)] assms(2))
qed

text \<open>
  When \<open>__init__\<close> succeeds on a reply whose working collection is a list, \<open>self.docs\<close>
  is a list of the same length, and every member that is a document (a dict) has its
  fields in the same order with every value a digit-only string replaced by the integer
  it denotes (\<open>''007''\<close> becomes 7) and every other value, a non-digit string or a number
  among them, unchanged (\<open>coerce_field\<close>).
\<close>

lemma digit_fields_become_integers:
  assumes "construct d = Inr r" and "working_collection d = Some (JList ds)"
  shows "\<exists>ds'. docs r = JList ds' \<and> length ds' = length ds
           \<and> (\<forall>i fields. i < length ds \<and> ds ! i = JObj fields
                 \<longrightarrow> ds' ! i = JObj (map (\<lambda>kv. (fst kv, coerce_field (snd kv))) fields))"
proof -
  from construct_InrD[OF assms(1)] obtain kvs h qt sh ds0 ds' where
    d: "d = JObj kvs" and sh: "dispatch kvs = Inr sh" and ds0: "sh_docs sh = Some ds0"
    and n: "normalise ds0 = Inr ds'" and r: "r = instance_of d h qt sh ds'"
    by blast
  from assms(2) d sh ds0 have "ds0 = JList ds" by (simp add: working_collection_def)
  with n obtain ys where ys: "ds' = JList ys" "list_all2 (\<lambda>x y. norm_doc x = Inr y) ds ys"
    using normalise_list by blast
  have len: "length ys = length ds" using ys(2) by (simp add: list_all2_lengthD)
  have "ys ! i = JObj (map (\<lambda>kv. (fst kv, coerce_field (snd kv))) fields)"
    if "i < length ds" "ds ! i = JObj fields" for i fields
  proof -
    from ys(2) that(1) have "norm_doc (ds ! i) = Inr (ys ! i)" by (rule list_all2_nthD)
    with that(2) show ?thesis by (auto dest!: bnd_InrD dest: norm_fields_coerce)
  qed
  with len ys(1) r show ?thesis by simp
qed

lemma ex_reply_wc: "working_collection ex_reply = Some (JList [JObj [(''price'', JStr ''100''), (''name'', JStr ''abc''),
                                      (''code'', JStr ''007'')]])"
  by (simp add: working_collection_def ex_reply_def dispatch_def)

text \<open>The document of the specification's example.\<close>

lemma digit_fields_example:
  "\<exists>r. construct ex_reply = Inr r
      \<and> docs r = JList [JObj [(''price'', JInt 100), (''name'', JStr ''abc''), (''code'', JInt 7)]]"
proof -
  let ?doc = "[(''price'', JStr ''100''), (''name'', JStr ''abc''), (''code'', JStr ''007'')]"
  from ex_reply_ok obtain r where r: "construct ex_reply = Inr r" ..
  from digit_fields_become_integers[OF r ex_reply_wc] obtain ds' where
    1: "docs r = JList ds'" and 2: "length ds' = length [JObj ?doc]"
    and 3: "\<forall>i fields. i < length [JObj ?doc] \<and> [JObj ?doc] ! i = JObj fields
          \<longrightarrow> ds' ! i = JObj (map (\<lambda>kv. (fst kv, coerce_field (snd kv))) fields)"
    by blast
  from 3[rule_format, of 0 ?doc]
  have "ds' ! 0 = JObj [(''price'', JInt 100), (''name'', JStr ''abc''), (''code'', JInt 7)]"
    by (simp add: coerce_field_def digit_only_def decimal_char_def decimal_value_def digit_val_def)
  with 2 have "ds' = [JObj [(''price'', JInt 100), (''name'', JStr ''abc''), (''code'', JInt 7)]]"
    by (cases ds') auto
  with 1 r show ?thesis by blast
qed

text \<open>
  Claim C6 at a document with the field \<open>power\<close> of value \<open>1\<close> followed by the
  superscript two (U+00B2). The string does not consist solely of decimal digits, so the
  claim leaves it unchanged. \<open>str.isdigit\<close> of line 30 accepts it, since a superscript
  digit is a digit to \<open>isdigit\<close>, and \<open>int\<close> of line 31 rejects it: \<open>__init__\<close> raises
  \<open>ValueError\<close> and no instance exists. On the replies that \<open>__init__\<close> accepts the claim
  holds (\<open>digit_fields_become_integers\<close>).
\<close>

theorem superscript_digit_raises:
  "construct ex_superscript = Inl ValueError
   \<and> isdigit [CHR ''1'', CHR 0xB2]
   \<and> int_of_str [CHR ''1'', CHR 0xB2] = Inl ValueError
   \<and> \<not> digit_only [CHR ''1'', CHR 0xB2]
   \<and> coerce_field (JStr [CHR ''1'', CHR 0xB2]) = JStr [CHR ''1'', CHR 0xB2]"
  by (simp add: ex_superscript_def eval_defs digit_only_def coerce_field_def)

subsection \<open>A \<open>grouped\<close> key with no field\<close>

text \<open>
  Claim C10. A reply carries at most one of \<open>response\<close> and \<open>grouped\<close> (the input
  contract), and the branch of line 17 is reached without \<open>response\<close>. When such a
  reply has the \<open>grouped\<close> key with an empty mapping as its value, \<open>__init__\<close> raises: the
  loop of line 20 never assigns \<open>self.docs\<close>, and once \<open>responseHeader\<close> and \<open>QTime\<close>
  have been read the exception is the \<open>AttributeError\<close> of line 28 for \<open>docs\<close>. No
  instance with an empty document sequence is produced.
\<close>

theorem empty_grouped_fails:
  assumes "map_of kvs ''response'' = None" and "map_of kvs ''grouped'' = Some (JObj [])"
  shows "(\<exists>e. construct (JObj kvs) = Inl e)
       \<and> ((\<exists>h qt. map_of kvs ''responseHeader'' = Some h \<and> getitem h (JStr ''QTime'') = Inr qt)
            \<longrightarrow> construct (JObj kvs) = Inl (AttributeError ''docs''))"
proof -
  have sh: "dispatch kvs = Inr \<lparr> sh_grouped = True, sh_groups = Some [], sh_docs = None,
                       sh_num_found = None, sh_path = None \<rparr>"
    using assms by (simp add: dispatch_def)
  have 1: "construct (JObj kvs) = Inl (AttributeError ''docs'')"
    if "map_of kvs ''responseHeader'' = Some h" "getitem h (JStr ''QTime'') = Inr qt" for h qt
    using that sh by (simp add: construct_def)
  have 2: "\<exists>e. construct (JObj kvs) = Inl e"
  proof (cases "construct (JObj kvs)")
    case (Inr r)
    from construct_InrD[OF Inr] sh show ?thesis by auto
  qed blast
  from 1 2 show ?thesis by blast
qed

theorem empty_grouped_fails_witness:
  "construct ex_grouped_none = Inl (AttributeError ''docs'')"
  using empty_grouped_fails[of "[(''responseHeader'', JObj [(''QTime'', JInt 4)]), (''grouped'', JObj [])]"]
  by (simp add: ex_grouped_none_def)

subsection \<open>Grouped replies\<close>

lemma group_step:
  assumes "group_loop (JObj fs) (JStr f # rest) (grps, ds, lf) = Inr res"
  shows "\<exists>v n m d. map_of fs f = Some v \<and> getitem v (JStr ''ngroups'') = Inr n
          \<and> getitem v (JStr ''matches'') = Inr m \<and> getitem v (JStr ''groups'') = Inr d
          \<and> group_loop (JObj fs) rest
               (AList.update (f @ ''_matches'') m (AList.update (f @ ''_ngroups'') n grps),
                Some d, Some (JStr f)) = Inr res"
proof -
  from assms obtain v where v: "map_of fs f = Some v"
    by (cases "map_of fs f") auto
  from assms v obtain n where n: "getitem v (JStr ''ngroups'') = Inr n"
    by (cases "getitem v (JStr ''ngroups'')") auto
  from assms v n obtain m where m: "getitem v (JStr ''matches'') = Inr m"
    by (cases "getitem v (JStr ''matches'')") auto
  from assms v n m obtain d where d: "getitem v (JStr ''groups'') = Inr d"
    by (cases "getitem v (JStr ''groups'')") auto
  from assms v n m d show ?thesis by simp
qed

lemma suffix_keys [simp]:
  "(f @ ''_ngroups'' = f' @ ''_ngroups'') = (f = f')"
  "(f @ ''_matches'' = f' @ ''_matches'') = (f = f')"
  "f @ ''_ngroups'' \<noteq> f' @ ''_matches''"
  "f @ ''_matches'' \<noteq> f' @ ''_ngroups''"
  by (simp_all add: append_eq_append_conv)

lemma recorded_step:
  assumes "map_of fs f' = Some v'" "getitem v' (JStr ''ngroups'') = Inr n'"
    "getitem v' (JStr ''matches'') = Inr m'"
  shows "recorded fs (AList.update (f' @ ''_matches'') m' (AList.update (f' @ ''_ngroups'') n' grps)) f'"
    and "recorded fs grps f \<Longrightarrow>
         recorded fs (AList.update (f' @ ''_matches'') m' (AList.update (f' @ ''_ngroups'') n' grps)) f"
  using assms by (auto simp: recorded_def update_conv')

lemma group_loop_records:
  assumes "group_loop (JObj fs) (map (\<lambda>kv. JStr (fst kv)) ks) (grps, ds, lf) = Inr (grps', ds', lf')"
    and "\<forall>f\<in>S. recorded fs grps f"
  shows "(\<forall>f \<in> S \<union> fst ` set ks. recorded fs grps' f)
       \<and> (ks \<noteq> [] \<longrightarrow> (\<exists>v d. map_of fs (fst (last ks)) = Some v
              \<and> getitem v (JStr ''groups'') = Inr d \<and> ds' = Some d
              \<and> lf' = Some (JStr (fst (last ks)))))"
  using assms
proof (induction ks arbitrary: grps ds lf S)
  case Nil
  then show ?case by simp
next
  case (Cons k ks)
  from Cons.prems(1) have "group_loop (JObj fs) (JStr (fst k) # map (\<lambda>kv. JStr (fst kv)) ks) (grps, ds, lf)
      = Inr (grps', ds', lf')" by simp
  from group_step[OF this] obtain v n m d where
    v: "map_of fs (fst k) = Some v" "getitem v (JStr ''ngroups'') = Inr n"
       "getitem v (JStr ''matches'') = Inr m" and d: "getitem v (JStr ''groups'') = Inr d"
    and rest: "group_loop (JObj fs) (map (\<lambda>kv. JStr (fst kv)) ks)
               (AList.update (fst k @ ''_matches'') m (AList.update (fst k @ ''_ngroups'') n grps),
                Some d, Some (JStr (fst k))) = Inr (grps', ds', lf')"
    by blast
  let ?g = "AList.update (fst k @ ''_matches'') m (AList.update (fst k @ ''_ngroups'') n grps)"
  have inv: "\<forall>f\<in>insert (fst k) S. recorded fs ?g f"
    using recorded_step[OF v] Cons.prems(2) by blast
  note IH = Cons.IH[OF rest inv]
  show ?case
  proof (cases "ks = []")
    case True
    with rest have "grps' = ?g" "ds' = Some d" "lf' = Some (JStr (fst k))" by simp_all
    with inv v d True show ?thesis by auto
  next
    case False
    with IH show ?thesis by auto
  qed
qed

lemma dispatch_grouped:
  assumes "map_of kvs ''response'' = None" "map_of kvs ''grouped'' = Some (JObj flds)"
    "dispatch kvs = Inr sh"
  shows "\<exists>grps lf. group_loop (JObj flds) (map (\<lambda>kv. JStr (fst kv)) flds) ([], None, None)
            = Inr (grps, sh_docs sh, lf) \<and> sh_groups sh = Some grps \<and> sh_grouped sh"
  using assms by (auto simp: dispatch_def dest!: bnd_InrD)

lemma stored_docs_grouped:
  assumes "construct d = Inr r"
    and "getitem d (JStr ''response'') = Inl KeyError"
    and "getitem d (JStr ''grouped'') = Inr (JObj flds)"
  shows "read_path [JStr ''grouped'', JStr (fst (last flds)), JStr ''groups''] (data r) = Inr (docs r)"
proof -
  let ?p = "[JStr ''grouped'', JStr (fst (last flds)), JStr ''groups'']"
  from construct_InrD[OF assms(1)] obtain kvs h qt sh ds0 ds' where
    d: "d = JObj kvs" and sh: "dispatch kvs = Inr sh" and ds0: "sh_docs sh = Some ds0"
    and r: "r = instance_of d h qt sh ds'"
    by blast
  from assms(2) d have nr: "map_of kvs ''response'' = None" using getitem_KeyErrorD by blast
  from assms(3) d have g: "map_of kvs ''grouped'' = Some (JObj flds)"
    by (auto split: option.splits)
  from sh nr g ds0 obtain grps lf where
    loop: "group_loop (JObj flds) (map (\<lambda>kv. JStr (fst kv)) flds) ([], None, None)
            = Inr (grps, Some ds0, lf)"
    and p: "sh_path sh = (case lf of Some f \<Rightarrow> Some [JStr ''grouped'', f, JStr ''groups'']
                          | None \<Rightarrow> None)"
    by (auto simp: dispatch_def dest!: bnd_InrD)
  have ne: "flds \<noteq> []" using loop by auto
  from group_loop_records[OF loop, of "{}"] ne obtain v where
    v: "map_of flds (fst (last flds)) = Some v" "getitem v (JStr ''groups'') = Inr ds0"
    and lf: "lf = Some (JStr (fst (last flds)))"
    by auto
  have "read_path ?p d = Inr ds0" by (simp add: d g v)
  then have "read_path ?p (update_at ?p d ds') = Inr ds'"
    by (rule read_update_at[rotated]) simp
  then show ?thesis by (simp add: r data_of_instance p lf)
qed

text \<open>
  Claim C9. When \<open>__init__\<close> succeeds on a reply without \<open>response\<close> whose \<open>grouped\<close> is
  a mapping, the instance is in grouped mode; for every field \<open>f\<close> under \<open>grouped\<close> the
  flat mapping \<open>self.groups\<close> holds the field's \<open>ngroups\<close> under \<open>f_ngroups\<close> and its
  \<open>matches\<close> under \<open>f_matches\<close>; and the working collection is the \<open>groups\<close> list of the
  last field of the iteration alone, which \<open>self.docs\<close> holds as the normalisation loop
  left it, the same list that the stored \<open>self.data\<close> holds for that field. The group
  lists of the earlier fields are not kept.
\<close>

theorem grouped_metadata_and_last_groups:
  assumes "construct d = Inr r"
    and "getitem d (JStr ''response'') = Inl KeyError"
    and "getitem d (JStr ''grouped'') = Inr (JObj flds)"
  shows "grouped r
       \<and> (\<exists>grps. groups r = Some grps
            \<and> (\<forall>f v. map_of flds f = Some v \<longrightarrow>
                  (\<exists>n m. getitem v (JStr ''ngroups'') = Inr n \<and> getitem v (JStr ''matches'') = Inr m
                      \<and> map_of grps (f @ ''_ngroups'') = Some n
                      \<and> map_of grps (f @ ''_matches'') = Some m)))
       \<and> flds \<noteq> []
       \<and> (\<exists>v g. map_of flds (fst (last flds)) = Some v \<and> getitem v (JStr ''groups'') = Inr g
              \<and> working_collection d = Some g \<and> normalise g = Inr (docs r))
       \<and> read_path [JStr ''grouped'', JStr (fst (last flds)), JStr ''groups''] (data r)
            = Inr (docs r)"
proof -
  from construct_InrD[OF assms(1)] obtain kvs h qt sh ds0 ds' where
    d: "d = JObj kvs" and sh: "dispatch kvs = Inr sh" and ds0: "sh_docs sh = Some ds0"
    and n: "normalise ds0 = Inr ds'" and r: "r = instance_of d h qt sh ds'"
    by blast
  from assms(2) d have nr: "map_of kvs ''response'' = None" using getitem_KeyErrorD by blast
  from assms(3) d have g: "map_of kvs ''grouped'' = Some (JObj flds)"
    by (auto split: option.splits)
  from dispatch_grouped[OF nr g sh] ds0 obtain grps lf where
    loop: "group_loop (JObj flds) (map (\<lambda>kv. JStr (fst kv)) flds) ([], None, None)
            = Inr (grps, Some ds0, lf)" and grps: "sh_groups sh = Some grps" and gr: "sh_grouped sh"
    by auto
  have ne: "flds \<noteq> []" using loop by auto
  from group_loop_records[OF loop, of "{}"] ne
  have rec: "\<forall>f \<in> fst ` set flds. recorded flds grps f"
    and last: "\<exists>v. map_of flds (fst (last flds)) = Some v \<and> getitem v (JStr ''groups'') = Inr ds0"
    by auto
  have wc: "working_collection d = Some ds0" by (simp add: working_collection_def d sh ds0)
  have all: "\<exists>n m. getitem v (JStr ''ngroups'') = Inr n \<and> getitem v (JStr ''matches'') = Inr m
                      \<and> map_of grps (f @ ''_ngroups'') = Some n
                      \<and> map_of grps (f @ ''_matches'') = Some m"
    if "map_of flds f = Some v" for f v
  proof -
    from that have "f \<in> fst ` set flds" by (auto dest!: map_of_SomeD intro: rev_image_eqI)
    with rec have "recorded flds grps f" by blast
    with that show ?thesis by (auto simp: recorded_def)
  qed
  from gr grps all ne last wc n stored_docs_grouped[OF assms] show ?thesis by (auto simp: r)
qed


theorem grouped_metadata_witness:
  "\<exists>r grps. construct ex_grouped = Inr r \<and> grouped r \<and> groups r = Some grps
      \<and> map_of grps ''a_ngroups'' = Some (JInt 2) \<and> map_of grps ''a_matches'' = Some (JInt 5)
      \<and> map_of grps ''b_ngroups'' = Some (JInt 3) \<and> map_of grps ''b_matches'' = Some (JInt 7)
      \<and> docs r = JList [JObj [(''groupValue'', JInt 12), (''doclist'', JObj [(''docs'', JList [])])]]"
proof -
  let ?flds = "[(''a'', ex_group_a), (''b'', ex_group_b)]"
  from ex_grouped_ok obtain r where r: "construct ex_grouped = Inr r" ..
  have 1: "getitem ex_grouped (JStr ''response'') = Inl KeyError"
    by (simp add: ex_grouped_def)
  have 2: "getitem ex_grouped (JStr ''grouped'') = Inr (JObj ?flds)"
    by (simp add: ex_grouped_def)
  from grouped_metadata_and_last_groups[OF r 1 2] obtain grps v g where
    a: "grouped r" "groups r = Some grps"
    and b: "\<forall>f v. map_of ?flds f = Some v \<longrightarrow>
                  (\<exists>n m. getitem v (JStr ''ngroups'') = Inr n \<and> getitem v (JStr ''matches'') = Inr m
                      \<and> map_of grps (f @ ''_ngroups'') = Some n
                      \<and> map_of grps (f @ ''_matches'') = Some m)"
    and c: "map_of ?flds (fst (last ?flds)) = Some v" "getitem v (JStr ''groups'') = Inr g"
       "normalise g = Inr (docs r)"
    by blast
  from b[rule_format, of "''a''" ex_group_a]
  have ka: "map_of grps ''a_ngroups'' = Some (JInt 2)" "map_of grps ''a_matches'' = Some (JInt 5)"
    by (auto simp: ex_group_a_def)
  from b[rule_format, of "''b''" ex_group_b]
  have kb: "map_of grps ''b_ngroups'' = Some (JInt 3)" "map_of grps ''b_matches'' = Some (JInt 7)"
    by (auto simp: ex_group_b_def)
  from c(1) have "v = ex_group_b" by simp
  with c(2) have "g = JList [JObj [(''groupValue'', JStr ''12''), (''doclist'', JObj [(''docs'', JList [])])]]"
    by (simp add: ex_group_b_def)
  with c(3) have "docs r = JList [JObj [(''groupValue'', JInt 12), (''doclist'', JObj [(''docs'', JList [])])]]"
    by (simp add: eval_defs)
  with r a ka kb show ?thesis by blast
qed

subsection \<open>Facet fields\<close>

lemma zip_evens_odds_length: "length (zip (evens l) (odds l)) = length l div 2"
  by (induction l rule: evens.induct) simp_all

lemma zip_evens_odds_nth:
  "i < length l div 2 \<Longrightarrow> zip (evens l) (odds l) ! i = (l ! (2 * i), l ! (2 * i + 1))"
proof (induction l arbitrary: i rule: evens.induct)
  case (3 x y zs)
  then show ?case by (cases i) simp_all
qed simp_all

lemma zip_evens_odds: "zip (evens l) (odds l) = flat_pairs l"
proof (rule nth_equalityI)
  show "length (zip (evens l) (odds l)) = length (flat_pairs l)"
    unfolding zip_evens_odds_length by (simp add: flat_pairs_def)
next
  fix i
  assume "i < length (zip (evens l) (odds l))"
  then have i: "i < length l div 2" unfolding zip_evens_odds_length .
  then have "flat_pairs l ! i = (l ! (2 * i), l ! (2 * i + 1))"
    by (simp add: flat_pairs_def)
  with zip_evens_odds_nth[OF i] show "zip (evens l) (odds l) ! i = flat_pairs l ! i"
    by (simp only:)
qed

lemma first_seen_snoc:
  "first_seen (ks @ [k]) = (if k \<in> set ks then first_seen ks else first_seen ks @ [k])"
  by (simp add: first_seen_def)

lemma set_first_seen [simp]: "set (first_seen ks) = set ks"
  by (simp add: first_seen_def)

lemma upsert_keys:
  "map (\<lambda>kv. key_norm (fst kv)) (upsert k v d) =
     (if key_norm k \<in> (\<lambda>kv. key_norm (fst kv)) ` set d then map (\<lambda>kv. key_norm (fst kv)) d
      else map (\<lambda>kv. key_norm (fst kv)) d @ [key_norm k])"
proof (induction d)
  case Nil
  then show ?case by simp
next
  case (Cons p d)
  obtain k' v' where p: "p = (k', v')" by (cases p)
  show ?case
  proof (cases "key_eq k' k")
    case True
    then show ?thesis by (simp add: p key_eq_def)
  next
    case False
    with Cons.IH show ?thesis by (simp add: p key_eq_def)
  qed
qed

lemma lookup_upsert:
  "lookup (upsert k v d) k' = (if key_eq k k' then Some v else lookup d k')"
  by (induction d) (auto simp: key_eq_def)

lemma dict_from_keys:
  assumes "dict_from ps acc = Inr od"
    and "map (\<lambda>kv. key_norm (fst kv)) acc = first_seen qs"
  shows "map (\<lambda>kv. key_norm (fst kv)) od = first_seen (qs @ map (\<lambda>kv. key_norm (fst kv)) ps)"
  using assms
proof (induction ps arbitrary: acc qs)
  case Nil
  then show ?case by simp
next
  case (Cons p ps)
  obtain k v where p: "p = (k, v)" by (cases p)
  from Cons.prems(1) p have rest: "dict_from ps (upsert k v acc) = Inr od"
    by (simp split: if_splits)
  have "(\<lambda>kv. key_norm (fst kv)) ` set acc = set qs"
    using Cons.prems(2) by (metis set_first_seen set_map)
  then have "map (\<lambda>kv. key_norm (fst kv)) (upsert k v acc) = first_seen (qs @ [key_norm k])"
    using Cons.prems(2) by (simp add: upsert_keys first_seen_snoc)
  from Cons.IH[OF rest this] show ?case by (simp add: p)
qed

lemma dict_from_lookup:
  assumes "dict_from ps acc = Inr od"
  shows "lookup od k =
     (case last_seen (map (\<lambda>kv. (key_norm (fst kv), snd kv)) ps) (key_norm k) of
        Some v \<Rightarrow> Some v | None \<Rightarrow> lookup acc k)"
  using assms
proof (induction ps arbitrary: acc)
  case Nil
  then show ?case by (simp add: last_seen_def)
next
  case (Cons p ps)
  obtain k' v' where p: "p = (k', v')" by (cases p)
  from Cons.prems p have rest: "dict_from ps (upsert k' v' acc) = Inr od"
    by (simp split: if_splits)
  from Cons.IH[OF rest] show ?case
    by (auto simp: p last_seen_def lookup_upsert key_eq_def map_add_def split: option.splits)
qed

lemma decode_flat_list:
  assumes "decode_flat (JList l) = Inr od"
  shows "map (\<lambda>kv. key_norm (fst kv)) od = first_seen (map (\<lambda>kv. key_norm (fst kv)) (flat_pairs l))"
    and "lookup od k = last_seen (map (\<lambda>kv. (key_norm (fst kv), snd kv)) (flat_pairs l)) (key_norm k)"
proof -
  from assms have d: "dict_from (flat_pairs l) [] = Inr od"
    by (simp add: decode_flat_def zip_evens_odds)
  from dict_from_keys[OF d, of "[]"] show "map (\<lambda>kv. key_norm (fst kv)) od = first_seen (map (\<lambda>kv. key_norm (fst kv)) (flat_pairs l))"
    by (simp add: first_seen_def)
  from dict_from_lookup[OF d, of k] show "lookup od k = last_seen (map (\<lambda>kv. (key_norm (fst kv), snd kv)) (flat_pairs l)) (key_norm k)"
    by (simp split: option.splits)
qed

lemma facets_loop_result:
  assumes "facets_loop ff ks fs0 = (None, fs)"
  shows "(\<forall>f\<in>set ks. \<exists>l od. map_of ff f = Some l \<and> decode_flat l = Inr od \<and> map_of fs f = Some od)
       \<and> (\<forall>f. f \<notin> set ks \<longrightarrow> map_of fs f = map_of fs0 f)"
  using assms
proof (induction ks arbitrary: fs0)
  case Nil
  then show ?case by simp
next
  case (Cons f ks)
  from Cons.prems obtain l where l: "map_of ff f = Some l"
    by (cases "map_of ff f") auto
  from Cons.prems l obtain od where od: "decode_flat l = Inr od"
    by (cases "decode_flat l") auto
  from Cons.prems l od have rest: "facets_loop ff ks (AList.update f od fs0) = (None, fs)"
    by simp
  note IH = Cons.IH[OF rest]
  have "map_of fs f = Some od"
  proof (cases "f \<in> set ks")
    case True
    with IH l od show ?thesis by auto
  next
    case False
    with IH show ?thesis by (simp add: update_conv')
  qed
  with IH l od show ?case by (auto simp: update_conv')
qed

text \<open>
  Claim C7. On the first call of \<open>get_facets\<close> that returns, every facet field whose raw
  value is a list \<open>l\<close> is decoded into an ordered mapping \<open>od\<close>: its pairs are the
  elements of \<open>l\<close> at the indices \<open>2i\<close> and \<open>2i + 1\<close> (\<open>flat_pairs\<close>), its keys stand in the
  order of their first occurrence, and looking a key up gives the count of its last
  occurrence. The witness is the specification's example: red 3, blue 5, red 1 decodes
  to red 1, blue 5 in this order.
\<close>

theorem facet_field_decoding:
  assumes "facets self = None" and "get_facets self = (Inr fs, self')"
    and "getitem (data self) (JStr ''facet_counts'') = Inr fc"
    and "getitem fc (JStr ''facet_fields'') = Inr ff"
    and "getitem ff (JStr f) = Inr (JList l)"
  shows "\<exists>od. map_of fs f = Some od
           \<and> map (\<lambda>kv. key_norm (fst kv)) od
               = first_seen (map (\<lambda>kv. key_norm (fst kv)) (flat_pairs l))
           \<and> (\<forall>k. lookup od k
                  = last_seen (map (\<lambda>kv. (key_norm (fst kv), snd kv)) (flat_pairs l)) (key_norm k))"
proof -
  from getitem_str_InrD[OF assms(3)] obtain d where
    d: "data self = JObj d" "map_of d ''facet_counts'' = Some fc" by blast
  from getitem_str_InrD[OF assms(4)] obtain fckvs where
    fc: "fc = JObj fckvs" "map_of fckvs ''facet_fields'' = Some ff" by blast
  from getitem_str_InrD[OF assms(5)] obtain ffkvs where
    ff: "ff = JObj ffkvs" "map_of ffkvs f = Some (JList l)" by blast
  from assms(1,2) d fc ff have loop: "facets_loop ffkvs (map fst ffkvs) [] = (None, fs)"
    by (auto simp: get_facets_def split: prod.splits option.splits)
  from ff(2) have "f \<in> set (map fst ffkvs)"
    by (auto dest!: map_of_SomeD intro: rev_image_eqI)
  with facets_loop_result[OF loop] ff(2) obtain od where
    od: "decode_flat (JList l) = Inr od" "map_of fs f = Some od" by auto
  from decode_flat_list[OF od(1)] od(2) show ?thesis by blast
qed


lemma ex_facets_ok:
  "\<exists>r. construct ex_facets = Inr r \<and> data r = ex_facets
      \<and> facets r = None \<and> facet_ranges r = None \<and> facet_pivot r = None"
  by (simp add: ex_facets_def eval_defs)

theorem facet_field_decoding_witness:
  "\<exists>r fs self' od. construct ex_facets = Inr r \<and> get_facets r = (Inr fs, self')
      \<and> map_of fs ''color'' = Some od
      \<and> od = [(JStr ''red'', JInt 1), (JStr ''blue'', JInt 5)]
      \<and> map (\<lambda>kv. key_norm (fst kv)) od = [JStr ''red'', JStr ''blue'']
      \<and> lookup od (JStr ''red'') = Some (JInt 1) \<and> lookup od (JStr ''blue'') = Some (JInt 5)"
proof -
  let ?l = "[JStr ''red'', JInt 3, JStr ''blue'', JInt 5, JStr ''red'', JInt 1]"
  let ?od = "[(JStr ''red'', JInt 1), (JStr ''blue'', JInt 5)]"
  from ex_facets_ok obtain r where
    r: "construct ex_facets = Inr r" "data r = ex_facets" "facets r = None" by blast
  have g: "get_facets r = (Inr [(''color'', ?od)], r\<lparr>facets := Some [(''color'', ?od)]\<rparr>)"
    by (simp add: get_facets_def r ex_facets_def decode_flat_def key_eq_def)
  have 1: "getitem (data r) (JStr ''facet_counts'')
      = Inr (JObj [(''facet_fields'', JObj [(''color'', JList ?l)])])"
    by (simp add: r ex_facets_def)
  have 2: "getitem (JObj [(''facet_fields'', JObj [(''color'', JList ?l)])]) (JStr ''facet_fields'')
      = Inr (JObj [(''color'', JList ?l)])"
    by simp
  have 3: "getitem (JObj [(''color'', JList ?l)]) (JStr ''color'') = Inr (JList ?l)"
    by simp
  have fp: "flat_pairs ?l = [(JStr ''red'', JInt 3), (JStr ''blue'', JInt 5), (JStr ''red'', JInt 1)]"
    by (simp add: flat_pairs_def upt_rec)
  from facet_field_decoding[OF r(3) g 1 2 3] obtain od where
    od: "map_of [(''color'', ?od)] ''color'' = Some od"
    and keys: "map (\<lambda>kv. key_norm (fst kv)) od = first_seen (map (\<lambda>kv. key_norm (fst kv)) (flat_pairs ?l))"
    and vals: "\<forall>k. lookup od k
                  = last_seen (map (\<lambda>kv. (key_norm (fst kv), snd kv)) (flat_pairs ?l)) (key_norm k)"
    by blast
  from od have eq: "od = ?od" by simp
  from keys have k: "map (\<lambda>kv. key_norm (fst kv)) od = [JStr ''red'', JStr ''blue'']"
    unfolding fp by (simp add: first_seen_def)
  from vals[rule_format, of "JStr ''red''"] have v1: "lookup od (JStr ''red'') = Some (JInt 1)"
    unfolding fp by (simp add: last_seen_def)
  from vals[rule_format, of "JStr ''blue''"] have v2: "lookup od (JStr ''blue'') = Some (JInt 5)"
    unfolding fp by (simp add: last_seen_def)
  from r(1) g od eq k v1 v2 show ?thesis by (intro exI conjI)
qed

subsection \<open>Instances of the examples\<close>

text \<open>The examples are decoded JSON: no dict has a key twice.\<close>

lemma examples_wf:
  "wf_json ex_reply" "wf_json ex_superscript" "wf_json ex_grouped" "wf_json ex_empty" "wf_json ex_grouped_none"
  "wf_json ex_facets" "wf_json ex_pivot" "wf_json ex_three_levels"
  "wf_json ex_no_ranges" "wf_json ex_ranges_list"
  by (simp_all add: ex_reply_def ex_superscript_def ex_grouped_def ex_group_a_def ex_group_b_def ex_empty_def
      ex_grouped_none_def ex_facets_def ex_pivot_def ex_entry_a_def ex_entry_b_def
      ex_three_levels_def ex_no_ranges_def ex_ranges_list_def)

lemma ex_reply_fresh:
  "\<exists>r. construct ex_reply = Inr r \<and> data r = ex_reply_stored
      \<and> facets r = None \<and> facet_ranges r = None \<and> facet_pivot r = None"
  by (simp add: ex_reply_def ex_reply_stored_def eval_defs)

lemma ex_pivot_fresh:
  "\<exists>r. construct ex_pivot = Inr r \<and> data r = ex_pivot
      \<and> facets r = None \<and> facet_ranges r = None \<and> facet_pivot r = None"
  by (simp add: ex_pivot_def eval_defs)

lemma ex_no_ranges_fresh:
  "\<exists>r. construct ex_no_ranges = Inr r \<and> data r = ex_no_ranges
      \<and> facets r = None \<and> facet_ranges r = None \<and> facet_pivot r = None"
  by (simp add: ex_no_ranges_def eval_defs)

lemma ex_ranges_list_fresh:
  "\<exists>r. construct ex_ranges_list = Inr r \<and> data r = ex_ranges_list
      \<and> facets r = None \<and> facet_ranges r = None \<and> facet_pivot r = None"
  by (simp add: ex_ranges_list_def eval_defs)

subsection \<open>Facet pivots\<close>

text \<open>
  Claim C1 at the specification's example: the entries A (with the pivot X 1, Y 1) and
  B (count 1, no pivot) under one field-spec. \<open>get_facet_pivot\<close> hands every top-level
  entry to \<open>_rec_subfield\<close>, whose dict branch (lines 173 to 175) binds nothing for an
  entry without \<open>pivot\<close>: the decoded mapping holds A alone and B is lost. An entry with a
  pivot inside a pivot raises \<open>TypeError\<close> (line 170 indexes the list with \<open>'value'\<close>).
\<close>

theorem pivot_decoding_drops_top_level_leaf:
  "(\<exists>r. construct ex_pivot = Inr r
      \<and> fst (get_facet_pivot r)
          = Inr (Some [(JStr ''f1,f2'',
                   [(JStr ''A'', Node [(JStr ''X'', Leaf (JInt 1)), (JStr ''Y'', Leaf (JInt 1))])])]))
   \<and> rec_subfield ex_entry_b = Inr []
   \<and> rec_subfield ex_three_levels = Inl TypeError"
proof -
  from ex_pivot_fresh obtain r where
    r: "construct ex_pivot = Inr r" "data r = ex_pivot" "facet_pivot r = None" by blast
  have "fst (get_facet_pivot r)
          = Inr (Some [(JStr ''f1,f2'',
                   [(JStr ''A'', Node [(JStr ''X'', Leaf (JInt 1)), (JStr ''Y'', Leaf (JInt 1))])])])"
    by (simp add: get_facet_pivot_def r ex_pivot_def ex_entry_a_def ex_entry_b_def
        dict_update_def key_eq_def)
  moreover have "rec_subfield ex_entry_b = Inr []"
    by (simp add: ex_entry_b_def)
  moreover have "rec_subfield ex_three_levels = Inl TypeError"
    by (simp add: ex_three_levels_def)
  ultimately show ?thesis using r(1) by blast
qed

subsection \<open>The stored reply\<close>

text \<open>
  In ungrouped mode the list that \<open>self.docs\<close> holds after the normalisation loop is
  the one found at \<open>response.docs\<close> of the stored \<open>self.data\<close>.
\<close>

lemma stored_docs_ungrouped:
  assumes "construct d = Inr r" and "getitem d (JStr ''response'') = Inr resp"
  shows "read_path [JStr ''response'', JStr ''docs''] (data r) = Inr (docs r)"
proof -
  from construct_InrD[OF assms(1)] obtain kvs h qt sh ds ds' where
    d: "d = JObj kvs" and sh: "dispatch kvs = Inr sh" and ds: "sh_docs sh = Some ds"
    and r: "r = instance_of d h qt sh ds'"
    by blast
  from assms(2) d have resp: "map_of kvs ''response'' = Some resp"
    by (auto split: option.splits)
  from sh ds have p: "sh_path sh = Some [JStr ''response'', JStr ''docs'']"
    and rd: "getitem resp (JStr ''docs'') = Inr ds"
    unfolding dispatch_response[OF resp] by (auto dest!: bnd_InrD)
  have "read_path [JStr ''response'', JStr ''docs''] d = Inr ds"
    by (simp add: d resp rd)
  then have "read_path [JStr ''response'', JStr ''docs'']
               (update_at [JStr ''response'', JStr ''docs''] d ds') = Inr ds'"
    by (rule read_update_at[rotated]) simp
  then show ?thesis by (simp add: r data_of_instance p)
qed

text \<open>
  Claim C3 at the reply \<open>ex_reply\<close>: after \<open>__init__\<close> the stored \<open>self.data\<close> is no
  longer the reply that was passed in, since the documents the normalisation loop
  assigns to are the ones inside \<open>data\<close>; \<open>get_json\<close> serialises the stored value, with
  100 and 7 where the input had the strings.
\<close>

theorem normalisation_reaches_stored_reply:
  "\<exists>r. construct ex_reply = Inr r \<and> data r = ex_reply_stored \<and> ex_reply_stored \<noteq> ex_reply
      \<and> (\<forall>dumps. get_json dumps r = dumps ex_reply_stored)"
proof -
  from ex_reply_fresh obtain r where
    r: "construct ex_reply = Inr r" "data r = ex_reply_stored" by blast
  have "ex_reply_stored \<noteq> ex_reply" by (simp add: ex_reply_def ex_reply_stored_def)
  with r show ?thesis by (auto simp: get_json_def)
qed

subsection \<open>Facet ranges\<close>

text \<open>
  Claim C4 at a reply whose \<open>facet_counts\<close> is a mapping without \<open>facet_ranges\<close>, and at
  one whose \<open>facet_ranges\<close> is a list: the first call of \<open>get_facets_ranges\<close> raises
  nothing and returns \<open>None\<close>.
\<close>

theorem facets_ranges_returns_none:
  "(\<exists>r. construct ex_no_ranges = Inr r \<and> fst (get_facets_ranges r) = Inr None)
   \<and> (\<exists>r. construct ex_ranges_list = Inr r \<and> fst (get_facets_ranges r) = Inr None)"
proof -
  from ex_no_ranges_fresh obtain r1 where
    r1: "construct ex_no_ranges = Inr r1" "data r1 = ex_no_ranges" "facet_ranges r1 = None" by blast
  from ex_ranges_list_fresh obtain r2 where
    r2: "construct ex_ranges_list = Inr r2" "data r2 = ex_ranges_list" "facet_ranges r2 = None" by blast
  have "fst (get_facets_ranges r1) = Inr None"
    by (simp add: get_facets_ranges_def r1 ex_no_ranges_def)
  moreover have "fst (get_facets_ranges r2) = Inr None"
    by (simp add: get_facets_ranges_def r2 ex_ranges_list_def)
  ultimately show ?thesis using r1(1) r2(1) by blast
qed

subsection \<open>Calling an accessor twice\<close>

text \<open>
  Claim C5 at a reply without \<open>facet_counts\<close>: each accessor sets its cache attribute
  to an empty mapping before it looks at the reply. The first call of \<open>get_facet_pivot\<close>
  returns \<open>None\<close> and the second the empty mapping; the first calls of \<open>get_facets\<close>
  and \<open>get_facets_ranges\<close> raise and the second calls return the empty mapping.
\<close>

theorem second_call_differs_from_first:
  "\<exists>r. construct ex_reply = Inr r
      \<and> fst (get_facet_pivot r) = Inr None
      \<and> fst (get_facet_pivot (snd (get_facet_pivot r))) = Inr (Some [])
      \<and> fst (get_facets_ranges r) = Inl (SolrResponseError ''No Facet Ranges in the Response'')
      \<and> fst (get_facets_ranges (snd (get_facets_ranges r))) = Inr (Some [])
      \<and> fst (get_facets r) = Inl (SolrResponseError ''No Facet Information in the Response'')
      \<and> fst (get_facets (snd (get_facets r))) = Inr []"
proof -
  from ex_reply_fresh obtain r where
    r: "construct ex_reply = Inr r" "data r = ex_reply_stored"
       "facets r = None" "facet_ranges r = None" "facet_pivot r = None" by blast
  have p: "get_facet_pivot r = (Inr None, r\<lparr>facet_pivot := Some []\<rparr>)"
    by (simp add: get_facet_pivot_def r ex_reply_stored_def)
  have p2: "fst (get_facet_pivot (r\<lparr>facet_pivot := Some []\<rparr>)) = Inr (Some [])"
    by (simp add: get_facet_pivot_def)
  have g: "get_facets_ranges r
      = (Inl (SolrResponseError ''No Facet Ranges in the Response''), r\<lparr>facet_ranges := Some []\<rparr>)"
    by (simp add: get_facets_ranges_def r ex_reply_stored_def)
  have g2: "fst (get_facets_ranges (r\<lparr>facet_ranges := Some []\<rparr>)) = Inr (Some [])"
    by (simp add: get_facets_ranges_def)
  have f: "get_facets r
      = (Inl (SolrResponseError ''No Facet Information in the Response''), r\<lparr>facets := Some []\<rparr>)"
    by (simp add: get_facets_def r ex_reply_stored_def)
  have f2: "fst (get_facets (r\<lparr>facets := Some []\<rparr>)) = Inr []"
    by (simp add: get_facets_def)
  from r(1) p p2 g g2 f f2 show ?thesis by (intro exI[of _ r]) simp
qed

subsection \<open>Keys and values of a facet field\<close>

text \<open>
  Claim C8 at the reply \<open>ex_facets\<close> and the field \<open>size\<close>, which is not a facet field of
  it: \<open>get_facet_values_as_list\<close> raises \<open>SolrResponseError\<close>, and
  \<open>get_facet_keys_as_list\<close> raises nothing and returns \<open>None\<close>. For the field \<open>color\<close>,
  which is present, the two return the counts and the keys in matching order.
\<close>

theorem facet_keys_of_absent_field_returns_none:
  "\<exists>r. construct ex_facets = Inr r
      \<and> fst (get_facet_values_as_list r ''size'')
           = Inl (SolrResponseError ''No field in facet output'')
      \<and> fst (get_facet_keys_as_list r ''size'') = Inr None
      \<and> fst (get_facet_values_as_list r ''color'') = Inr [JInt 1, JInt 5]
      \<and> fst (get_facet_keys_as_list r ''color'') = Inr (Some [JStr ''red'', JStr ''blue''])"
proof -
  let ?fs = "[(''color'', [(JStr ''red'', JInt 1), (JStr ''blue'', JInt 5)])]"
  from ex_facets_ok obtain r where
    r: "construct ex_facets = Inr r" "data r = ex_facets" "facets r = None" by blast
  have g: "get_facets r = (Inr ?fs, r\<lparr>facets := Some ?fs\<rparr>)"
    by (simp add: get_facets_def r ex_facets_def decode_flat_def key_eq_def)
  have "fst (get_facet_values_as_list r ''size'')
           = Inl (SolrResponseError ''No field in facet output'')"
    and "fst (get_facet_keys_as_list r ''size'') = Inr None"
    and "fst (get_facet_values_as_list r ''color'') = Inr [JInt 1, JInt 5]"
    and "fst (get_facet_keys_as_list r ''color'') = Inr (Some [JStr ''red'', JStr ''blue''])"
    by (simp_all add: get_facet_values_as_list_def get_facet_keys_as_list_def g)
  with r(1) show ?thesis by blast
qed

end
